theory Spec2Isabelle
  imports Main "HOL-Library.Multiset"
begin

section \<open>Data model\<close>

text \<open>
  The tables of \<^verbatim>\<open>supabase/migrations/20260121105520_create_leaderboard_schema.sql\<close>
  and the interfaces of the pages. A \<^verbatim>\<open>uuid\<close> is an opaque key that is only compared
  for equality and drawn fresh by the store; it is a natural number here. Timestamps are
  natural numbers. Scores are the \<^verbatim>\<open>integer\<close> column read into a JavaScript number;
  they are unbounded integers here (sums stay exact below \<open>2 ^ 53\<close>).
\<close>

type_synonym uuid = nat
type_synonym timestamp = nat

text \<open>The rows of \<^verbatim>\<open>.from('scores').select('team_id, score')\<close>.\<close>

record ScoreSel =
  sel_team_id :: uuid
  sel_score :: int

text \<open>The rows of \<^verbatim>\<open>.from('teams').select('id, name')\<close>.\<close>

record Team =
  team_id :: uuid
  team_name :: string

text \<open>The objects built by \<^verbatim>\<open>teams.map\<close> in \<^verbatim>\<open>fetchLeaderboard\<close>, before the rank is added.\<close>

record TeamScore =
  ts_team_id :: uuid
  ts_team_name :: string
  ts_total_score :: int

text \<open>\<^verbatim>\<open>interface LeaderboardEntry\<close> of \<^verbatim>\<open>Leaderboard.tsx\<close>.\<close>

record LeaderboardEntry =
  le_team_id :: uuid
  le_team_name :: string
  le_total_score :: int
  le_rank :: nat

section \<open>The leaderboard computation (\<^verbatim>\<open>Leaderboard.tsx\<close>, \<^verbatim>\<open>fetchLeaderboard\<close>)\<close>

text \<open>\<^verbatim>\<open>scores?.filter(s => s.team_id === team.id) || []\<close>: a null \<^verbatim>\<open>scores\<close> gives \<open>[]\<close>.\<close>

definition teamScoreData :: "ScoreSel list option \<Rightarrow> Team \<Rightarrow> ScoreSel list" where
  "teamScoreData scores team =
     (case scores of
        None \<Rightarrow> []
      | Some ss \<Rightarrow> filter (\<lambda>s. sel_team_id s = team_id team) ss)"

text \<open>\<^verbatim>\<open>teamScoreData.reduce((sum, s) => sum + s.score, 0)\<close>: a left fold from 0.\<close>

definition totalScore :: "ScoreSel list \<Rightarrow> int" where
  "totalScore rows = foldl (\<lambda>sum s. sum + sel_score s) 0 rows"

definition teamScores :: "ScoreSel list option \<Rightarrow> Team list \<Rightarrow> TeamScore list" where
  "teamScores scores teams =
     map (\<lambda>team. \<lparr>ts_team_id = team_id team,
                  ts_team_name = team_name team,
                  ts_total_score = totalScore (teamScoreData scores team)\<rparr>) teams"

text \<open>
  \<^verbatim>\<open>teamScores.sort((a, b) => b.total_score - a.total_score)\<close>. \<^verbatim>\<open>Array.prototype.sort\<close>
  is a stable sort; with this comparator on integers the result is the stable arrangement
  by descending total, which is what the insertion sort below computes: \<open>a\<close> stays in
  front of \<open>b\<close> exactly when the comparator \<open>b.total_score - a.total_score\<close> is not positive.
\<close>

fun insert_desc :: "TeamScore \<Rightarrow> TeamScore list \<Rightarrow> TeamScore list" where
  "insert_desc a [] = [a]"
| "insert_desc a (b # bs) =
     (if ts_total_score b - ts_total_score a \<le> 0 then a # b # bs
      else b # insert_desc a bs)"

definition sort_desc :: "TeamScore list \<Rightarrow> TeamScore list" where
  "sort_desc xs = foldr insert_desc xs []"

text \<open>\<^verbatim>\<open>teamScores.map((entry, index) => ({...entry, rank: index + 1}))\<close>, from \<open>index\<close> on.\<close>

fun rankedFrom :: "nat \<Rightarrow> TeamScore list \<Rightarrow> LeaderboardEntry list" where
  "rankedFrom index [] = []"
| "rankedFrom index (entry # rest) =
     \<lparr>le_team_id = ts_team_id entry,
      le_team_name = ts_team_name entry,
      le_total_score = ts_total_score entry,
      le_rank = index + 1\<rparr> # rankedFrom (index + 1) rest"

definition rankedData :: "ScoreSel list option \<Rightarrow> Team list \<Rightarrow> LeaderboardEntry list" where
  "rankedData scores teams = rankedFrom 0 (sort_desc (teamScores scores teams))"

text \<open>
  What a \<^verbatim>\<open>throw\<close> carries: the error object of the store or of the identity provider (its
  content is never inspected), an \<^verbatim>\<open>Error\<close> built by \<^verbatim>\<open>signIn\<close> with its message, or the
  TypeError of a call on \<^verbatim>\<open>null\<close>.
\<close>

datatype failure = Upstream | Message string | TypeError

text \<open>
  The answer of one store call, \<^verbatim>\<open>{ data, error }\<close>: \<open>Inl\<close> carries the error, \<open>Inr\<close> the
  data, which the client library types as nullable.
\<close>

type_synonym 'a response = "failure + 'a option"

text \<open>
  \<^verbatim>\<open>fetchLeaderboard\<close>: the new value of the \<^verbatim>\<open>leaderboard\<close> state, or the error that
  reaches the \<^verbatim>\<open>catch\<close> (the state then keeps its old value). \<^verbatim>\<open>teams.map\<close> on a null
  \<^verbatim>\<open>teams\<close> is a TypeError.
\<close>

definition fetchLeaderboard ::
  "ScoreSel list response \<Rightarrow> Team list response \<Rightarrow> failure + LeaderboardEntry list" where
  "fetchLeaderboard scores_resp teams_resp =
     (case scores_resp of
        Inl error \<Rightarrow> Inl error
      | Inr scores \<Rightarrow>
          (case teams_resp of
             Inl teamsError \<Rightarrow> Inl teamsError
           | Inr None \<Rightarrow> Inl TypeError
           | Inr (Some teams) \<Rightarrow> Inr (rankedData scores teams)))"

text \<open>Auxiliary notions for stating the properties of the leaderboard.\<close>

abbreviation desc_totals :: "TeamScore list \<Rightarrow> bool" where
  "desc_totals \<equiv> sorted_wrt (\<lambda>a b. ts_total_score b \<le> ts_total_score a)"

text \<open>An entry without its rank, as it was before \<^verbatim>\<open>rank\<close> was spread in.\<close>

definition unranked :: "LeaderboardEntry \<Rightarrow> TeamScore" where
  "unranked e = \<lparr>ts_team_id = le_team_id e, ts_team_name = le_team_name e,
                 ts_total_score = le_total_score e\<rparr>"

text \<open>
  The scenario of the specification: judge A scores team X with 8 and 7, judge B scores it
  with 6 and 9; team Y has no score row.
\<close>

definition teamX :: Team where
  "teamX = \<lparr>team_id = 1, team_name = ''X''\<rparr>"

definition teamY :: Team where
  "teamY = \<lparr>team_id = 2, team_name = ''Y''\<rparr>"

definition scenario_teams :: "Team list" where
  "scenario_teams = [teamY, teamX]"

definition scenario_scores :: "ScoreSel list" where
  "scenario_scores =
     [\<lparr>sel_team_id = 1, sel_score = 8\<rparr>, \<lparr>sel_team_id = 1, sel_score = 7\<rparr>,
      \<lparr>sel_team_id = 1, sel_score = 6\<rparr>, \<lparr>sel_team_id = 1, sel_score = 9\<rparr>]"

section \<open>The store (\<^verbatim>\<open>scores\<close> and \<^verbatim>\<open>comments\<close> tables)\<close>

text \<open>
  The text of a comment is a JavaScript string, a sequence of UTF-16 code units; a code
  unit is a natural number (below 65536) here, so that \<^verbatim>\<open>trim\<close> can be modelled on the
  characters it removes.
\<close>

type_synonym jsstring = "nat list"

text \<open>\<^verbatim>\<open>interface Category\<close>, a row of \<^verbatim>\<open>score_categories\<close>.\<close>

record Category =
  cat_id :: uuid
  cat_name :: string
  max_score :: int

text \<open>A row of \<^verbatim>\<open>scores\<close>; the table declares \<^verbatim>\<open>UNIQUE(team_id, judge_id, category_id)\<close>.\<close>

record ScoreRow =
  sc_id :: uuid
  sc_team_id :: uuid
  sc_judge_id :: uuid
  sc_category_id :: uuid
  sc_score :: int
  sc_created_at :: timestamp
  sc_updated_at :: timestamp

text \<open>A row of \<^verbatim>\<open>comments\<close>; the table declares no uniqueness beyond the primary key.\<close>

record CommentRow =
  cm_id :: uuid
  cm_team_id :: uuid
  cm_judge_id :: uuid
  cm_comment :: jsstring
  cm_created_at :: timestamp
  cm_updated_at :: timestamp

text \<open>
  The three write calls \<^verbatim>\<open>saveScores\<close> makes, with their payloads:
  \<^verbatim>\<open>.from('scores').upsert({team_id, judge_id, category_id, score, updated_at},
  {onConflict: 'team_id,judge_id,category_id'})\<close>,
  \<^verbatim>\<open>.from('comments').update({comment, updated_at}).eq('id', id)\<close> and
  \<^verbatim>\<open>.from('comments').insert({team_id, judge_id, comment})\<close>.
\<close>

datatype Write =
    UpsertScore uuid uuid uuid int timestamp
  | UpdateComment uuid jsstring timestamp
  | InsertComment uuid uuid jsstring

text \<open>
  The store: the two tables, the next value of \<^verbatim>\<open>gen_random_uuid()\<close>, and the write calls
  it has received so far, failed ones included.
\<close>

record Store =
  scores_tbl :: "ScoreRow list"
  comments_tbl :: "CommentRow list"
  next_uuid :: uuid
  received :: "Write list"

definition score_key :: "ScoreRow \<Rightarrow> uuid \<times> uuid \<times> uuid" where
  "score_key r = (sc_team_id r, sc_judge_id r, sc_category_id r)"

text \<open>
  What the store does with a write it accepts, at store time \<open>now\<close> (the value of the
  \<^verbatim>\<open>DEFAULT now()\<close> columns). The upsert is \<^verbatim>\<open>INSERT \<dots> ON CONFLICT (team_id, judge_id,
  category_id) DO UPDATE\<close>: a row with the same key takes the payload's score and
  \<^verbatim>\<open>updated_at\<close>, and only when there is none a new row is added. The update touches the
  rows whose \<^verbatim>\<open>id\<close> is the given one; the insert adds a row.
\<close>

fun apply_write :: "timestamp \<Rightarrow> Write \<Rightarrow> Store \<Rightarrow> Store" where
  "apply_write now (UpsertScore t j c s upd) db =
     (if list_ex (\<lambda>r. score_key r = (t, j, c)) (scores_tbl db)
      then db\<lparr>scores_tbl :=
                map (\<lambda>r. if score_key r = (t, j, c)
                          then r\<lparr>sc_score := s, sc_updated_at := upd\<rparr> else r)
                    (scores_tbl db)\<rparr>
      else db\<lparr>scores_tbl := scores_tbl db @
                [\<lparr>sc_id = next_uuid db, sc_team_id = t, sc_judge_id = j, sc_category_id = c,
                  sc_score = s, sc_created_at = now, sc_updated_at = upd\<rparr>],
              next_uuid := next_uuid db + 1\<rparr>)"
| "apply_write now (UpdateComment i text upd) db =
     db\<lparr>comments_tbl :=
          map (\<lambda>r. if cm_id r = i then r\<lparr>cm_comment := text, cm_updated_at := upd\<rparr> else r)
              (comments_tbl db)\<rparr>"
| "apply_write now (InsertComment t j text) db =
     db\<lparr>comments_tbl := comments_tbl db @
          [\<lparr>cm_id = next_uuid db, cm_team_id = t, cm_judge_id = j, cm_comment = text,
            cm_created_at = now, cm_updated_at = now\<rparr>],
        next_uuid := next_uuid db + 1\<rparr>"

text \<open>
  One awaited write call. Whether the store reports an error is not decided by the
  program: \<open>plan\<close> lists, call by call, whether the next write fails (an exhausted plan
  means success). A failed write changes no table. The result is the \<^verbatim>\<open>error\<close> of the answer,
  the rest of the plan and the store.
\<close>

definition store_write ::
  "timestamp \<Rightarrow> Write \<Rightarrow> bool list \<Rightarrow> Store \<Rightarrow> failure option \<times> bool list \<times> Store" where
  "store_write now w plan db =
     (let db1 = db\<lparr>received := received db @ [w]\<rparr> in
      case plan of
        [] \<Rightarrow> (None, [], apply_write now w db1)
      | fails # plan' \<Rightarrow>
          if fails then (Some Upstream, plan', db1)
          else (None, plan', apply_write now w db1))"

section \<open>The judge's page (\<^verbatim>\<open>JudgeDashboard.tsx\<close>)\<close>

text \<open>\<^verbatim>\<open>type UserRole = 'admin' | 'judge' | 'team'\<close> and \<^verbatim>\<open>interface AuthUser\<close> of the auth context.\<close>

datatype UserRole = RoleAdmin | RoleJudge | RoleTeam

record AuthUser =
  au_role :: UserRole
  au_id :: uuid
  au_name :: string
  au_email :: "string option"

text \<open>\<^verbatim>\<open>interface Comment\<close> of the page: what it keeps of a fetched comment row.\<close>

record Comment =
  c_id :: uuid
  c_comment :: jsstring

text \<open>
  The state of the component that \<^verbatim>\<open>saveScores\<close> reads or that the fetches set: \<^verbatim>\<open>user\<close>
  (from the auth context), \<^verbatim>\<open>categories\<close>, \<^verbatim>\<open>selectedTeam\<close>, \<^verbatim>\<open>scores\<close> (a
  \<^verbatim>\<open>Record<string, number>\<close>, so a map from category id), \<^verbatim>\<open>comment\<close> and
  \<^verbatim>\<open>existingComment\<close>.
\<close>

record JudgeView =
  v_user :: "AuthUser option"
  v_categories :: "Category list"
  v_selectedTeam :: "Team option"
  v_scores :: "uuid \<rightharpoonup> int"
  v_comment :: jsstring
  v_existingComment :: "Comment option"

text \<open>
  The score input's \<^verbatim>\<open>onChange\<close>. \<open>parsed\<close> is the value of \<^verbatim>\<open>parseInt(e.target.value)\<close>,
  \<open>None\<close> for NaN; \<^verbatim>\<open>|| 0\<close> turns NaN (and 0) into 0.
\<close>

definition clampedValue :: "Category \<Rightarrow> int option \<Rightarrow> int" where
  "clampedValue category parsed =
     (let value = (case parsed of None \<Rightarrow> 0 | Some n \<Rightarrow> if n = 0 then 0 else n)
      in min (max 0 value) (max_score category))"

definition onChangeScore :: "Category \<Rightarrow> int option \<Rightarrow> JudgeView \<Rightarrow> JudgeView" where
  "onChangeScore category parsed v =
     v\<lparr>v_scores := (v_scores v)(cat_id category \<mapsto> clampedValue category parsed)\<rparr>"


text \<open>
  \<^verbatim>\<open>String.prototype.trim\<close> removes, at both ends, the code units that ECMAScript calls
  white space or line terminators: TAB, LF, VT, FF, CR, SPACE, NO-BREAK SPACE (U+00A0),
  the other space separators (U+1680, U+2000 to U+200A, U+202F, U+205F, U+3000), LINE
  and PARAGRAPH SEPARATOR (U+2028, U+2029) and the byte order mark (U+FEFF).
\<close>

definition is_space :: "nat \<Rightarrow> bool" where
  "is_space u =
     (u \<in> set [0x0009, 0x000A, 0x000B, 0x000C, 0x000D, 0x0020, 0x00A0, 0x1680,
               0x2028, 0x2029, 0x202F, 0x205F, 0x3000, 0xFEFF] \<or>
      (0x2000 \<le> u \<and> u \<le> 0x200A))"

definition trim :: "jsstring \<Rightarrow> jsstring" where
  "trim s = rev (dropWhile is_space (rev (dropWhile is_space s)))"

text \<open>The code units of a text written in ASCII.\<close>

definition utf16 :: "string \<Rightarrow> jsstring" where
  "utf16 s = map of_char s"

text \<open>
  \<^verbatim>\<open>.maybeSingle()\<close> of the store's client library: no row is \<^verbatim>\<open>data: null\<close> without an
  error, one row is that row, several rows are an error.
\<close>

fun maybeSingle :: "'a list \<Rightarrow> failure + 'a option" where
  "maybeSingle [] = Inr None"
| "maybeSingle [r] = Inr (Some r)"
| "maybeSingle (r # r' # rs) = Inl Upstream"



text \<open>\<^verbatim>\<open>fetchCommentForTeam\<close>, likewise.\<close>

definition comments_of :: "uuid \<Rightarrow> uuid \<Rightarrow> Store \<Rightarrow> CommentRow list" where
  "comments_of teamId judgeId db =
     filter (\<lambda>r. cm_team_id r = teamId \<and> cm_judge_id r = judgeId) (comments_tbl db)"


text \<open>
  The \<^verbatim>\<open>for (const category of categories)\<close> loop of \<^verbatim>\<open>saveScores\<close>: a category whose
  score is \<^verbatim>\<open>undefined\<close> is skipped, the others are upserted one after the other, and
  \<^verbatim>\<open>if (error) throw error\<close> leaves the loop at the first error.
\<close>

fun upsertCategories ::
  "timestamp \<Rightarrow> uuid \<Rightarrow> uuid \<Rightarrow> (uuid \<rightharpoonup> int) \<Rightarrow> Category list \<Rightarrow> bool list \<Rightarrow> Store
     \<Rightarrow> failure option \<times> bool list \<times> Store" where
  "upsertCategories now teamId judgeId scores [] plan db = (None, plan, db)"
| "upsertCategories now teamId judgeId scores (category # rest) plan db =
     (case scores (cat_id category) of
        None \<Rightarrow> upsertCategories now teamId judgeId scores rest plan db
      | Some score \<Rightarrow>
          (case store_write now (UpsertScore teamId judgeId (cat_id category) score now) plan db of
             (Some error, plan', db') \<Rightarrow> (Some error, plan', db')
           | (None, plan', db') \<Rightarrow> upsertCategories now teamId judgeId scores rest plan' db'))"

text \<open>
  The comment branch: nothing for a comment that is empty after \<^verbatim>\<open>trim\<close>, an update by
  id when \<^verbatim>\<open>existingComment\<close> is set, an insert otherwise.
\<close>

definition writeComment ::
  "timestamp \<Rightarrow> uuid \<Rightarrow> uuid \<Rightarrow> jsstring \<Rightarrow> Comment option \<Rightarrow> bool list \<Rightarrow> Store
     \<Rightarrow> failure option \<times> bool list \<times> Store" where
  "writeComment now teamId judgeId comment existingComment plan db =
     (if trim comment \<noteq> [] then
        (case existingComment of
           Some existing \<Rightarrow> store_write now (UpdateComment (c_id existing) (trim comment) now) plan db
         | None \<Rightarrow> store_write now (InsertComment teamId judgeId (trim comment)) plan db)
      else (None, plan, db))"

text \<open>
  How \<^verbatim>\<open>saveScores\<close> ends: without doing anything (the guard on \<^verbatim>\<open>selectedTeam\<close> and
  \<^verbatim>\<open>user\<close>), with the success alert, after which it starts \<^verbatim>\<open>fetchScoresForTeam\<close> and
  \<^verbatim>\<open>fetchCommentForTeam\<close> without awaiting them, or with the alert of the \<^verbatim>\<open>catch\<close>.
\<close>

datatype SaveOutcome = NotRun | Saved | Failed failure

text \<open>
  \<^verbatim>\<open>saveScores\<close>, from the click to the \<^verbatim>\<open>finally\<close>: how it ends and the store it leaves.
  \<open>now\<close> is the clock reading of this submission (the source reads the clock for each
  payload; the readings of one submission are one value here) and \<open>plan\<close> the fate of its
  write calls.
  It changes none of the state read here; the two fetches it starts land later, as events
  of their own.
\<close>

definition saveScores :: "timestamp \<Rightarrow> bool list \<Rightarrow> JudgeView \<times> Store \<Rightarrow> SaveOutcome \<times> Store" where
  "saveScores now plan state =
     (let (v, db) = state in
      case (v_selectedTeam v, v_user v) of
        (Some selectedTeam, Some user) \<Rightarrow>
          (case upsertCategories now (team_id selectedTeam) (au_id user) (v_scores v)
                  (v_categories v) plan db of
             (Some error, plan1, db1) \<Rightarrow> (Failed error, db1)
           | (None, plan1, db1) \<Rightarrow>
               (case writeComment now (team_id selectedTeam) (au_id user) (v_comment v)
                       (v_existingComment v) plan1 db1 of
                  (Some error, plan2, db2) \<Rightarrow> (Failed error, db2)
                | (None, plan2, db2) \<Rightarrow> (Saved, db2)))
      | _ \<Rightarrow> (NotRun, db))"

section \<open>Notions for stating the properties of a submission\<close>

text \<open>
  The writes one run of \<^verbatim>\<open>saveScores\<close> sets out to make, in their order: an upsert for every
  category of the list whose score is set, then the comment write.
\<close>

definition categoryWrites ::
  "timestamp \<Rightarrow> uuid \<Rightarrow> uuid \<Rightarrow> (uuid \<rightharpoonup> int) \<Rightarrow> Category list \<Rightarrow> Write list" where
  "categoryWrites now teamId judgeId scores cats =
     concat (map (\<lambda>category.
        case scores (cat_id category) of
          None \<Rightarrow> []
        | Some score \<Rightarrow> [UpsertScore teamId judgeId (cat_id category) score now]) cats)"

definition commentWrites ::
  "timestamp \<Rightarrow> uuid \<Rightarrow> uuid \<Rightarrow> jsstring \<Rightarrow> Comment option \<Rightarrow> Write list" where
  "commentWrites now teamId judgeId comment existingComment =
     (if trim comment = [] then []
      else (case existingComment of
              Some existing \<Rightarrow> [UpdateComment (c_id existing) (trim comment) now]
            | None \<Rightarrow> [InsertComment teamId judgeId (trim comment)]))"

definition plannedWrites :: "timestamp \<Rightarrow> JudgeView \<Rightarrow> Write list" where
  "plannedWrites now v =
     (case (v_selectedTeam v, v_user v) of
        (Some selectedTeam, Some user) \<Rightarrow>
          categoryWrites now (team_id selectedTeam) (au_id user) (v_scores v) (v_categories v) @
          commentWrites now (team_id selectedTeam) (au_id user) (v_comment v) (v_existingComment v)
      | _ \<Rightarrow> [])"

text \<open>
  Of a list of writes made one after the other under a plan: the writes before the first
  failing one, and the writes up to and including it.
\<close>

fun applied :: "bool list \<Rightarrow> 'a list \<Rightarrow> 'a list" where
  "applied plan [] = []"
| "applied [] (w # ws) = w # ws"
| "applied (fails # plan) (w # ws) = (if fails then [] else w # applied plan ws)"

fun issued :: "bool list \<Rightarrow> 'a list \<Rightarrow> 'a list" where
  "issued plan [] = []"
| "issued [] (w # ws) = w # ws"
| "issued (fails # plan) (w # ws) = (if fails then [w] else w # issued plan ws)"

text \<open>The store after it has accepted a list of writes, one after the other.\<close>

definition apply_writes :: "timestamp \<Rightarrow> Write list \<Rightarrow> Store \<Rightarrow> Store" where
  "apply_writes now ws db = foldl (\<lambda>d w. apply_write now w d) db ws"

text \<open>
  Making a list of writes one after the other under a plan, in closed form: the error
  reported (if any), the rest of the plan and the store.
\<close>

definition run_writes ::
  "timestamp \<Rightarrow> bool list \<Rightarrow> Write list \<Rightarrow> Store \<Rightarrow> failure option \<times> bool list \<times> Store" where
  "run_writes now plan ws db =
     (if applied plan ws = ws then None else Some Upstream,
      drop (length (issued plan ws)) plan,
      (apply_writes now (applied plan ws) db)\<lparr>received := received db @ issued plan ws\<rparr>)"

text \<open>The score rows of one (team, judge, category) triple.\<close>

definition rows_of :: "uuid \<times> uuid \<times> uuid \<Rightarrow> Store \<Rightarrow> ScoreRow list" where
  "rows_of k db = filter (\<lambda>r. score_key r = k) (scores_tbl db)"

text \<open>
  The triples a submission provides a score for: team and judge are the selected team and
  the user, the category is in the list and its score is set.
\<close>

definition provided :: "JudgeView \<Rightarrow> uuid \<times> uuid \<times> uuid \<Rightarrow> bool" where
  "provided v k =
     (case (v_selectedTeam v, v_user v) of
        (Some selectedTeam, Some user) \<Rightarrow>
          list_ex (\<lambda>category. v_scores v (cat_id category) \<noteq> None \<and>
                     k = (team_id selectedTeam, au_id user, cat_id category)) (v_categories v)
      | _ \<Rightarrow> False)"


text \<open>The store after a run of \<^verbatim>\<open>saveScores\<close>, and how the run ended.\<close>

definition store_after :: "SaveOutcome \<times> Store \<Rightarrow> Store" where
  "store_after result = snd result"

definition outcome :: "SaveOutcome \<times> Store \<Rightarrow> SaveOutcome" where
  "outcome result = fst result"

text \<open>
  The scenario of the specification on the judge's page: judge A has entered 8 for
  Innovation and 7 for Design for team X, with a comment, and the store is empty.
\<close>

definition judgeA :: AuthUser where
  "judgeA = \<lparr>au_role = RoleJudge, au_id = 7, au_name = ''A'', au_email = None\<rparr>"

definition innovation :: Category where
  "innovation = \<lparr>cat_id = 11, cat_name = ''Innovation'', max_score = 10\<rparr>"

definition design :: Category where
  "design = \<lparr>cat_id = 12, cat_name = ''Design'', max_score = 10\<rparr>"

definition scenario_view :: JudgeView where
  "scenario_view =
     \<lparr>v_user = Some judgeA, v_categories = [innovation, design], v_selectedTeam = Some teamX,
      v_scores = [11 \<mapsto> 8, 12 \<mapsto> 7], v_comment = utf16 ''good '',
      v_existingComment = None\<rparr>"

definition empty_store :: Store where
  "empty_store = \<lparr>scores_tbl = [], comments_tbl = [], next_uuid = 100, received = []\<rparr>"

text \<open>The (team, judge, category) triple whose score rows a write can touch, if any.\<close>

fun write_key :: "Write \<Rightarrow> (uuid \<times> uuid \<times> uuid) option" where
  "write_key (UpsertScore t j c s upd) = Some (t, j, c)"
| "write_key (UpdateComment i text upd) = None"
| "write_key (InsertComment t j text) = None"

text \<open>A store in which judge A has already given team Y a 3 for Innovation.\<close>

definition rowY :: ScoreRow where
  "rowY = \<lparr>sc_id = 50, sc_team_id = 2, sc_judge_id = 7, sc_category_id = 11, sc_score = 3,
           sc_created_at = 1, sc_updated_at = 1\<rparr>"

definition store_Y :: Store where
  "store_Y = \<lparr>scores_tbl = [rowY], comments_tbl = [], next_uuid = 100, received = []\<rparr>"

text \<open>The triple has a score row, and every row of the triple carries the score \<open>s\<close>.\<close>

definition holds_score :: "uuid \<times> uuid \<times> uuid \<Rightarrow> int \<Rightarrow> Store \<Rightarrow> bool" where
  "holds_score k s db =
     (rows_of k db \<noteq> [] \<and> list_all (\<lambda>r. sc_score r = s) (rows_of k db))"










text \<open>Every score row of the triple carries the \<^verbatim>\<open>updated_at\<close> value \<open>upd\<close>.\<close>

definition holds_stamp :: "uuid \<times> uuid \<times> uuid \<Rightarrow> timestamp \<Rightarrow> Store \<Rightarrow> bool" where
  "holds_stamp k upd db = list_all (\<lambda>r. sc_updated_at r = upd) (rows_of k db)"

text \<open>
  A category whose \<^verbatim>\<open>max_score\<close> is negative, which the column (\<^verbatim>\<open>integer DEFAULT 10\<close>,
  without a check) admits, and the page of judge A for team X with that category alone.
\<close>

definition penalty :: Category where
  "penalty = \<lparr>cat_id = 13, cat_name = ''Penalty'', max_score = - 3\<rparr>"

definition penalty_view :: JudgeView where
  "penalty_view =
     \<lparr>v_user = Some judgeA, v_categories = [penalty], v_selectedTeam = Some teamX,
      v_scores = Map.empty, v_comment = [], v_existingComment = None\<rparr>"

section \<open>Sign-in (\<^verbatim>\<open>AuthContext\<close>, \<^verbatim>\<open>signIn\<close>)\<close>

text \<open>A row of \<^verbatim>\<open>judges\<close> (a row of \<^verbatim>\<open>teams\<close> is a \<^typ>\<open>Team\<close>).\<close>

record Judge =
  judge_id :: uuid
  judge_name :: string

text \<open>The \<^verbatim>\<open>credentials\<close> argument: each field may be absent.\<close>

record Credentials =
  cred_email :: "string option"
  cred_password :: "string option"
  cred_name :: "string option"

text \<open>\<^verbatim>\<open>!credentials.x\<close>: the field is absent or the empty string.\<close>

definition missing :: "string option \<Rightarrow> bool" where
  "missing x = (case x of None \<Rightarrow> True | Some s \<Rightarrow> s = [])"

text \<open>
  What \<^verbatim>\<open>signIn\<close> talks to: the answer of the identity provider to
  \<^verbatim>\<open>signInWithPassword\<close> (the user's id and email, or an error), the \<^verbatim>\<open>judges\<close> and
  \<^verbatim>\<open>teams\<close> tables, and whether the store answers the lookup with an error of its own.
\<close>

record AuthBackend =
  ab_password_reply :: "failure + uuid \<times> string option"
  ab_judges :: "Judge list"
  ab_teams :: "Team list"
  ab_lookup_fails :: bool

text \<open>\<^verbatim>\<open>.select('*').eq('name', name).maybeSingle()\<close> on a table.\<close>

definition select_by_name :: "bool \<Rightarrow> ('r \<Rightarrow> string) \<Rightarrow> string \<Rightarrow> 'r list \<Rightarrow> failure + 'r option" where
  "select_by_name fails name_of n rows =
     (if fails then Inl Upstream else maybeSingle (filter (\<lambda>r. name_of r = n) rows))"

text \<open>
  The state of the provider: \<^verbatim>\<open>user\<close> and the \<^verbatim>\<open>authUser\<close> item of \<^verbatim>\<open>localStorage\<close> (the
  stored JSON text is the object it encodes).
\<close>

record AuthState =
  ctx_user :: "AuthUser option"
  stored_authUser :: "AuthUser option"

definition establish :: "AuthUser \<Rightarrow> AuthState \<Rightarrow> AuthState" where
  "establish authUser st = st\<lparr>ctx_user := Some authUser, stored_authUser := Some authUser\<rparr>"

text \<open>
  \<^verbatim>\<open>signIn\<close>: the error it throws (\<open>None\<close> when it returns normally) and the state it
  leaves. Every \<^verbatim>\<open>throw\<close> comes before \<^verbatim>\<open>setUser\<close> and \<^verbatim>\<open>localStorage.setItem\<close>.
\<close>

fun signIn :: "UserRole \<Rightarrow> Credentials \<Rightarrow> AuthBackend \<Rightarrow> AuthState \<Rightarrow> failure option \<times> AuthState" where
  "signIn RoleAdmin credentials backend st =
     (if missing (cred_email credentials) \<or> missing (cred_password credentials)
      then (Some (Message ''Email and password required for admin login''), st)
      else (case ab_password_reply backend of
              Inl error \<Rightarrow> (Some error, st)
            | Inr (uid, email) \<Rightarrow>
                (None, establish \<lparr>au_role = RoleAdmin, au_id = uid, au_name = ''Admin'',
                                   au_email = email\<rparr> st)))"
| "signIn RoleJudge credentials backend st =
     (case cred_name credentials of
        None \<Rightarrow> (Some (Message ''Name required for judge login''), st)
      | Some n \<Rightarrow>
          if n = [] then (Some (Message ''Name required for judge login''), st)
          else (case select_by_name (ab_lookup_fails backend) judge_name n (ab_judges backend) of
                  Inl error \<Rightarrow> (Some error, st)
                | Inr None \<Rightarrow> (Some (Message ''Judge not found''), st)
                | Inr (Some judge) \<Rightarrow>
                    (None, establish \<lparr>au_role = RoleJudge, au_id = judge_id judge,
                                       au_name = judge_name judge, au_email = None\<rparr> st)))"
| "signIn RoleTeam credentials backend st =
     (case cred_name credentials of
        None \<Rightarrow> (Some (Message ''Name required for team login''), st)
      | Some n \<Rightarrow>
          if n = [] then (Some (Message ''Name required for team login''), st)
          else (case select_by_name (ab_lookup_fails backend) team_name n (ab_teams backend) of
                  Inl error \<Rightarrow> (Some error, st)
                | Inr None \<Rightarrow> (Some (Message ''Team not found''), st)
                | Inr (Some team) \<Rightarrow>
                    (None, establish \<lparr>au_role = RoleTeam, au_id = team_id team,
                                       au_name = team_name team, au_email = None\<rparr> st)))"

text \<open>
  A backend with one judge named Ann, two judges named Bob and one team named X, and the
  credentials that carry just a name.
\<close>

definition by_name :: "string \<Rightarrow> Credentials" where
  "by_name n = \<lparr>cred_email = None, cred_password = None, cred_name = Some n\<rparr>"

definition scenario_backend :: AuthBackend where
  "scenario_backend =
     \<lparr>ab_password_reply = Inl Upstream,
      ab_judges = [\<lparr>judge_id = 7, judge_name = ''Ann''\<rparr>, \<lparr>judge_id = 8, judge_name = ''Bob''\<rparr>,
                   \<lparr>judge_id = 9, judge_name = ''Bob''\<rparr>],
      ab_teams = [teamX],
      ab_lookup_fails = False\<rparr>"

definition signed_out :: AuthState where
  "signed_out = \<lparr>ctx_user = None, stored_authUser = None\<rparr>"

section \<open>Properties of the leaderboard computation\<close>

lemma totalScore_foldl: "foldl (\<lambda>sum s. sum + sel_score s) a rows = a + sum_list (map sel_score rows)"
  by (induction rows arbitrary: a) simp_all

lemma totalScore_sum: "totalScore rows = sum_list (map sel_score rows)"
  by (simp add: totalScore_def totalScore_foldl)

lemma mset_insert_desc: "mset (insert_desc a bs) = add_mset a (mset bs)"
  by (induction bs) simp_all

lemma mset_sort_desc: "mset (sort_desc xs) = mset xs"
  by (induction xs) (simp_all add: sort_desc_def mset_insert_desc)

lemma set_insert_desc: "set (insert_desc a bs) = insert a (set bs)"
  by (induction bs) auto

lemma length_sort_desc: "length (sort_desc xs) = length xs"
  using mset_sort_desc [of xs] by (metis size_mset)

lemma desc_insert_desc: "desc_totals bs \<Longrightarrow> desc_totals (insert_desc a bs)"
proof (induction bs)
  case Nil
  show ?case by simp
next
  case (Cons b bs)
  show ?case
  proof (cases "ts_total_score b - ts_total_score a \<le> 0")
    case True
    with Cons.prems show ?thesis by force
  next
    case False
    with Cons show ?thesis by (auto simp: set_insert_desc)
  qed
qed

lemma desc_sort_desc: "desc_totals (sort_desc xs)"
  by (induction xs) (simp_all add: sort_desc_def desc_insert_desc)

lemma unranked_rankedFrom: "map unranked (rankedFrom index xs) = xs"
  by (induction xs arbitrary: index) (simp_all add: unranked_def)

lemma rank_rankedFrom: "map le_rank (rankedFrom index xs) = [index + 1 ..< index + 1 + length xs]"
proof (induction xs arbitrary: index)
  case Nil
  show ?case by simp
next
  case (Cons x xs)
  have "[index + 1 ..< index + 1 + length (x # xs)] =
        (index + 1) # [index + 1 + 1 ..< index + 1 + 1 + length xs]"
    by (simp add: upt_rec)
  with Cons.IH [of "index + 1"] show ?case by simp
qed

lemma length_rankedFrom: "length (rankedFrom index xs) = length xs"
  by (induction xs arbitrary: index) simp_all

lemma length_rankedData: "length (rankedData scores teams) = length teams"
  by (simp add: rankedData_def length_rankedFrom length_sort_desc teamScores_def)

lemma unranked_rankedData:
  "map unranked (rankedData scores teams) = sort_desc (teamScores scores teams)"
  by (simp add: rankedData_def unranked_rankedFrom)

lemma rank_rankedData: "map le_rank (rankedData scores teams) = [1 ..< 1 + length teams]"
  by (simp add: rankedData_def rank_rankedFrom length_sort_desc teamScores_def)

lemma mset_unranked_rankedData:
  "mset (map unranked (rankedData scores teams)) = mset (teamScores scores teams)"
  by (simp add: unranked_rankedData mset_sort_desc)

lemma count_rankedData:
  "length (filter (\<lambda>e. le_team_id e = k) (rankedData scores teams)) =
   length (filter (\<lambda>t. team_id t = k) teams)"
proof -
  let ?out = "rankedData scores teams"
  let ?P = "\<lambda>x. ts_team_id x = k"
  have "length (filter (\<lambda>e. le_team_id e = k) ?out) = length (filter ?P (map unranked ?out))"
    by (simp add: filter_map o_def unranked_def)
  also have "\<dots> = size (filter_mset ?P (mset (map unranked ?out)))"
    by (metis mset_filter size_mset)
  also have "\<dots> = size (filter_mset ?P (mset (teamScores scores teams)))"
    by (simp only: mset_unranked_rankedData)
  also have "\<dots> = length (filter ?P (teamScores scores teams))"
    by (metis mset_filter size_mset)
  also have "\<dots> = length (filter (\<lambda>t. team_id t = k) teams)"
    by (simp add: teamScores_def filter_map o_def)
  finally show ?thesis .
qed

lemma distinct_count_one:
  "distinct (map f xs) \<Longrightarrow> x \<in> set xs \<Longrightarrow> length (filter (\<lambda>y. f y = f x) xs) = 1"
proof (induction xs)
  case Nil
  then show ?case by simp
next
  case (Cons y ys)
  show ?case
  proof (cases "f y = f x")
    case True
    from Cons.prems have "f y \<notin> f ` set ys" by simp
    with True have "\<forall>z\<in>set ys. f z \<noteq> f x" by (metis imageI)
    then have "filter (\<lambda>y. f y = f x) ys = []" by (simp add: filter_empty_conv)
    with True show ?thesis by simp
  next
    case False
    with Cons show ?thesis by auto
  qed
qed

lemma entry_of_rankedData:
  assumes "e \<in> set (rankedData scores teams)"
  shows "\<exists>t\<in>set teams. le_team_id e = team_id t \<and> le_team_name e = team_name t \<and>
           le_total_score e = totalScore (teamScoreData scores t)"
proof -
  from assms have "unranked e \<in> set (map unranked (rankedData scores teams))" by simp
  then have "unranked e \<in># mset (map unranked (rankedData scores teams))"
    by (simp only: set_mset_mset)
  then have "unranked e \<in># mset (teamScores scores teams)"
    by (simp only: mset_unranked_rankedData)
  then have "unranked e \<in> set (teamScores scores teams)" by simp
  then obtain t where "t \<in> set teams"
    and "unranked e = \<lparr>ts_team_id = team_id t, ts_team_name = team_name t,
            ts_total_score = totalScore (teamScoreData scores t)\<rparr>"
    by (auto simp: teamScores_def)
  then show ?thesis by (auto simp: unranked_def)
qed

lemma teamScoreData_cong:
  "team_id (t::Team) = team_id (t'::Team) \<Longrightarrow> teamScoreData scores t = teamScoreData scores t'"
  by (cases scores) (simp_all add: teamScoreData_def)

lemma total_of_rankedData:
  assumes "e \<in> set (rankedData (Some S) teams)" and "le_team_id e = team_id (team::Team)"
  shows "le_total_score e = sum_list (map sel_score (filter (\<lambda>s. sel_team_id s = team_id team) S))"
proof -
  from entry_of_rankedData [OF assms(1)] obtain t where t: "le_team_id e = team_id t"
    "le_total_score e = totalScore (teamScoreData (Some S) t)" by blast
  from t(1) assms(2) have "team_id t = team_id team" by simp
  then have "teamScoreData (Some S) t = teamScoreData (Some S) team"
    by (rule teamScoreData_cong)
  with t(2) have "le_total_score e = totalScore (teamScoreData (Some S) team)" by simp
  also have "\<dots> = sum_list (map sel_score (filter (\<lambda>s. sel_team_id s = team_id team) S))"
    by (simp add: totalScore_sum teamScoreData_def)
  finally show ?thesis .
qed

lemma desc_rankedData:
  "sorted_wrt (\<lambda>a b. le_total_score b \<le> le_total_score a) (rankedData scores teams)"
proof -
  have "desc_totals (map unranked (rankedData scores teams))"
    by (simp only: unranked_rankedData desc_sort_desc)
  then show ?thesis by (simp add: sorted_wrt_map unranked_def)
qed

lemma rank_nth_rankedData:
  assumes "i < length teams"
  shows "le_rank (rankedData scores teams ! i) = i + 1"
proof -
  have "le_rank (rankedData scores teams ! i) = map le_rank (rankedData scores teams) ! i"
    using assms by (simp add: length_rankedData)
  also have "\<dots> = [1 ..< 1 + length teams] ! i" by (simp only: rank_rankedData)
  also have "\<dots> = 1 + i" using assms by (intro nth_upt) simp
  finally show ?thesis by simp
qed

lemma higher_total_lower_rank:
  assumes "e \<in> set (rankedData scores teams)" and "e' \<in> set (rankedData scores teams)"
    and "le_total_score e < le_total_score e'"
  shows "le_rank e' < le_rank e"
proof -
  let ?out = "rankedData scores teams"
  from assms(1) obtain i where i: "i < length ?out" "?out ! i = e" by (auto simp: in_set_conv_nth)
  from assms(2) obtain j where j: "j < length ?out" "?out ! j = e'" by (auto simp: in_set_conv_nth)
  have "\<not> i < j"
  proof
    assume "i < j"
    with j(1) desc_rankedData [of scores teams]
    have "le_total_score (?out ! j) \<le> le_total_score (?out ! i)"
      by (simp add: sorted_wrt_iff_nth_less)
    with i j assms(3) show False by simp
  qed
  moreover from i j assms(3) have "i \<noteq> j" by auto
  ultimately have "j < i" by simp
  moreover from i have "le_rank e = i + 1"
    using rank_nth_rankedData [of i teams scores] by (simp add: length_rankedData)
  moreover from j have "le_rank e' = j + 1"
    using rank_nth_rankedData [of j teams scores] by (simp add: length_rankedData)
  ultimately show ?thesis by simp
qed

text \<open>
  C1. Every team of the team set appears exactly once in the leaderboard, and the total of
  its entry is the sum of the \<open>score\<close> fields of the rows whose \<open>team_id\<close> is the team's id
  (so 0 when there is no such row). The team set is the \<open>teams\<close> table, whose \<open>id\<close> is a
  primary key.
\<close>

theorem leaderboard_one_entry_per_team:
  assumes "distinct (map team_id teams)" and "(team::Team) \<in> set teams"
  shows "length (filter (\<lambda>e. le_team_id e = team_id team) (rankedData (Some S) teams)) = 1 \<and>
         (\<forall>e\<in>set (rankedData (Some S) teams). le_team_id e = team_id team \<longrightarrow>
            le_team_name e = team_name team \<and>
            le_total_score e =
              sum_list (map sel_score (filter (\<lambda>s. sel_team_id s = team_id team) S)) \<and>
            (filter (\<lambda>s. sel_team_id s = team_id team) S = [] \<longrightarrow> le_total_score e = 0))"
proof (intro conjI ballI impI)
  show "length (filter (\<lambda>e. le_team_id e = team_id team) (rankedData (Some S) teams)) = 1"
    using distinct_count_one [OF assms] by (simp only: count_rankedData)
next
  fix e assume e: "e \<in> set (rankedData (Some S) teams)" "le_team_id e = team_id team"
  from entry_of_rankedData [OF e(1)] obtain t where t: "t \<in> set teams"
    "le_team_id e = team_id t" "le_team_name e = team_name t" by blast
  from assms(1) have "inj_on team_id (set teams)" by (simp add: distinct_map)
  from inj_onD [OF this _ t(1) assms(2)] t(2) e(2) have "t = team" by simp
  with t(3) show "le_team_name e = team_name team" by simp
  show tot: "le_total_score e =
      sum_list (map sel_score (filter (\<lambda>s. sel_team_id s = team_id team) S))"
    using e by (rule total_of_rankedData)
  assume "filter (\<lambda>s. sel_team_id s = team_id team) S = []"
  with tot show "le_total_score e = 0" by simp
qed

lemmas scenario_defs = scenario_teams_def scenario_scores_def teamX_def teamY_def

lemma scenario_rankedData:
  "rankedData (Some scenario_scores) scenario_teams =
     [\<lparr>le_team_id = 1, le_team_name = ''X'', le_total_score = 30, le_rank = 1\<rparr>,
      \<lparr>le_team_id = 2, le_team_name = ''Y'', le_total_score = 0, le_rank = 2\<rparr>]"
  by (simp add: scenario_defs rankedData_def teamScores_def teamScoreData_def totalScore_def
      sort_desc_def)

theorem leaderboard_one_entry_per_team_witness:
  "distinct (map team_id scenario_teams) \<and> teamX \<in> set scenario_teams \<and>
   length (filter (\<lambda>e. le_team_id e = team_id teamX)
     (rankedData (Some scenario_scores) scenario_teams)) = 1 \<and>
   (\<exists>e\<in>set (rankedData (Some scenario_scores) scenario_teams).
      le_team_id e = team_id teamX \<and> le_team_name e = ''X'' \<and> le_total_score e = 30)"
proof -
  let ?out = "rankedData (Some scenario_scores) scenario_teams"
  have h1: "distinct (map team_id scenario_teams)" by (simp add: scenario_defs)
  have h2: "teamX \<in> set scenario_teams" by (simp add: scenario_defs)
  note main = leaderboard_one_entry_per_team [OF h1 h2, of scenario_scores]
  from main have "filter (\<lambda>e. le_team_id e = team_id teamX) ?out \<noteq> []" by auto
  then obtain e where e: "e \<in> set ?out" "le_team_id e = team_id teamX"
    by (auto simp: filter_empty_conv)
  have "sum_list (map sel_score (filter (\<lambda>s. sel_team_id s = team_id teamX) scenario_scores)) = 30"
    by (simp add: scenario_defs)
  with main e have "le_team_name e = ''X'' \<and> le_total_score e = 30"
    by (simp add: teamX_def)
  with e have "\<exists>e\<in>set ?out. le_team_id e = team_id teamX \<and> le_team_name e = ''X'' \<and>
      le_total_score e = 30" by blast
  with main h1 h2 show ?thesis by simp
qed

text \<open>
  C5. The leaderboard is sorted non-increasing by total score: the total of every entry is
  at least the total of every later entry.
\<close>

theorem leaderboard_sorted_desc:
  "sorted_wrt (\<lambda>a b. le_total_score a \<ge> le_total_score b) (rankedData scores teams)"
  by (rule desc_rankedData)

theorem leaderboard_sorted_desc_witness:
  "sorted_wrt (\<lambda>a b. le_total_score a \<ge> le_total_score b)
     (rankedData (Some scenario_scores) scenario_teams) \<and>
   map le_total_score (rankedData (Some scenario_scores) scenario_teams) = [30, 0]"
  using leaderboard_sorted_desc [of "Some scenario_scores" scenario_teams]
  by (simp add: scenario_rankedData)

lemma desc_nth_rankedData:
  assumes "i \<le> k" and "k < length teams"
  shows "le_total_score (rankedData scores teams ! k) \<le> le_total_score (rankedData scores teams ! i)"
proof (cases "i = k")
  case True
  then show ?thesis by simp
next
  case False
  with assms have "i < k" "k < length (rankedData scores teams)"
    by (simp_all add: length_rankedData)
  with desc_rankedData [of scores teams] show ?thesis
    by (simp add: sorted_wrt_iff_nth_less)
qed

text \<open>
  C6. Ranking is strictly positional: the ranks of the output, read in order, are exactly
  \<open>1, \<dots>, n\<close> for the \<open>n\<close> teams, so the entry at position \<open>i\<close> (from 0) has rank
  \<open>i + 1\<close> and no two entries share a rank, whatever their totals. Entries with equal
  totals stand next to each other (every entry between two of them has their total), so
  their ranks are consecutive.
\<close>

theorem leaderboard_rank_positional:
  "map le_rank (rankedData scores teams) = [1 ..< 1 + length teams] \<and>
   length (rankedData scores teams) = length teams \<and>
   distinct (map le_rank (rankedData scores teams)) \<and>
   (\<forall>i < length teams. le_rank (rankedData scores teams ! i) = i + 1) \<and>
   (\<forall>i k j. i \<le> k \<and> k \<le> j \<and> j < length teams \<and>
      le_total_score (rankedData scores teams ! i) = le_total_score (rankedData scores teams ! j) \<longrightarrow>
      le_total_score (rankedData scores teams ! k) = le_total_score (rankedData scores teams ! i))"
proof -
  have block: "le_total_score (rankedData scores teams ! k) =
      le_total_score (rankedData scores teams ! i)"
    if "i \<le> k" "k \<le> j" "j < length teams"
      "le_total_score (rankedData scores teams ! i) = le_total_score (rankedData scores teams ! j)"
    for i k j
  proof -
    from that have "le_total_score (rankedData scores teams ! k) \<le>
        le_total_score (rankedData scores teams ! i)"
      by (intro desc_nth_rankedData) simp_all
    moreover from that have "le_total_score (rankedData scores teams ! j) \<le>
        le_total_score (rankedData scores teams ! k)"
      by (intro desc_nth_rankedData) simp_all
    ultimately show ?thesis using that(4) by simp
  qed
  have "map le_rank (rankedData scores teams) = [1 ..< 1 + length teams]"
    by (rule rank_rankedData)
  moreover have "distinct (map le_rank (rankedData scores teams))"
    by (simp only: rank_rankedData distinct_upt)
  moreover have "\<forall>i < length teams. le_rank (rankedData scores teams ! i) = i + 1"
    by (simp add: rank_nth_rankedData)
  ultimately show ?thesis using block length_rankedData [of scores teams] by blast
qed

theorem leaderboard_rank_positional_witness:
  "map le_rank (rankedData (Some scenario_scores) scenario_teams) = [1, 2]"
proof -
  have "[1 ..< 1 + length scenario_teams] = [1, 2]" by (simp add: scenario_teams_def upt_rec)
  with leaderboard_rank_positional [of "Some scenario_scores" scenario_teams]
  show ?thesis by simp
qed

text \<open>
  C7. A team without any score row has an entry with total 0, and every entry of that team
  is ranked strictly after every entry whose total is positive.
\<close>

theorem leaderboard_zero_team_below_positive:
  assumes "(team::Team) \<in> set teams"
    and "\<forall>s\<in>set S. sel_team_id s \<noteq> team_id team"
  shows "(\<exists>e\<in>set (rankedData (Some S) teams).
            le_team_id e = team_id team \<and> le_total_score e = 0) \<and>
         (\<forall>e\<in>set (rankedData (Some S) teams). \<forall>e'\<in>set (rankedData (Some S) teams).
            le_team_id e = team_id team \<and> 0 < le_total_score e' \<longrightarrow>
            le_total_score e = 0 \<and> le_rank e' < le_rank e)"
proof (intro conjI ballI impI)
  from assms(2) have norows: "filter (\<lambda>s. sel_team_id s = team_id team) S = []"
    by (simp add: filter_empty_conv)
  have zero: "le_total_score e = 0"
    if "e \<in> set (rankedData (Some S) teams)" "le_team_id e = team_id team" for e
    using total_of_rankedData [OF that] norows by simp
  have "0 < length (filter (\<lambda>t. team_id t = team_id team) teams)"
    using assms(1) by (auto simp: filter_empty_conv)
  then have "filter (\<lambda>e. le_team_id e = team_id team) (rankedData (Some S) teams) \<noteq> []"
    using count_rankedData [of "team_id team" "Some S" teams] by auto
  then obtain e where e: "e \<in> set (rankedData (Some S) teams)" "le_team_id e = team_id team"
    by (auto simp: filter_empty_conv)
  with zero [OF e] show "\<exists>e\<in>set (rankedData (Some S) teams).
      le_team_id e = team_id team \<and> le_total_score e = 0" by blast
  fix a b
  assume a: "a \<in> set (rankedData (Some S) teams)" and b: "b \<in> set (rankedData (Some S) teams)"
    and ab: "le_team_id a = team_id team \<and> 0 < le_total_score b"
  from zero [OF a] ab show "le_total_score a = 0" by simp
  with ab have "le_total_score a < le_total_score b" by simp
  with a b show "le_rank b < le_rank a" by (rule higher_total_lower_rank)
qed

theorem leaderboard_zero_team_below_positive_witness:
  "teamY \<in> set scenario_teams \<and>
   team_id teamY \<notin> sel_team_id ` set scenario_scores \<and>
   (\<exists>e\<in>set (rankedData (Some scenario_scores) scenario_teams).
      le_team_id e = team_id teamY \<and> le_total_score e = 0 \<and> le_rank e = 2) \<and>
   (\<exists>e'\<in>set (rankedData (Some scenario_scores) scenario_teams).
      0 < le_total_score e' \<and> le_rank e' = 1)"
proof -
  have h1: "teamY \<in> set scenario_teams" by (simp add: scenario_defs)
  have h2: "\<forall>s\<in>set scenario_scores. sel_team_id s \<noteq> team_id teamY"
    by (simp add: scenario_defs)
  from leaderboard_zero_team_below_positive [OF h1 h2] h1 h2
  show ?thesis by (simp add: scenario_rankedData teamY_def image_iff)
qed

section \<open>Properties of the store\<close>

lemma apply_write_received [simp]:
  "apply_write now w (db\<lparr>received := rs\<rparr>) = (apply_write now w db)\<lparr>received := rs\<rparr>"
  by (cases w) simp_all

lemma received_apply_write [simp]: "received (apply_write now w db) = received db"
  by (cases w) simp_all

lemma apply_writes_Nil [simp]: "apply_writes now [] db = db"
  by (simp add: apply_writes_def)

lemma apply_writes_Cons [simp]:
  "apply_writes now (w # ws) db = apply_writes now ws (apply_write now w db)"
  by (simp add: apply_writes_def)


lemma apply_writes_received [simp]:
  "apply_writes now ws (db\<lparr>received := rs\<rparr>) = (apply_writes now ws db)\<lparr>received := rs\<rparr>"
  by (induction ws arbitrary: db) simp_all

lemma received_apply_writes [simp]: "received (apply_writes now ws db) = received db"
  by (induction ws arbitrary: db) simp_all

lemma store_write_Nil:
  "store_write now w [] db = (None, [], (apply_write now w db)\<lparr>received := received db @ [w]\<rparr>)"
  by (simp add: store_write_def)

lemma store_write_Cons:
  "store_write now w (fails # plan) db =
     (if fails then (Some Upstream, plan, db\<lparr>received := received db @ [w]\<rparr>)
      else (None, plan, (apply_write now w db)\<lparr>received := received db @ [w]\<rparr>))"
  by (simp add: store_write_def)


lemma issued_append:
  "issued plan (ws @ ws') =
     (if applied plan ws = ws then ws @ issued (drop (length ws) plan) ws'
      else issued plan ws)"
  by (induction plan ws rule: applied.induct) (simp_all, cases ws', simp_all)

lemma issued_all: "applied plan ws = ws \<Longrightarrow> issued plan ws = ws"
  by (induction plan ws rule: applied.induct) (simp_all split: if_splits)

lemma set_applied: "set (applied plan ws) \<subseteq> set ws"
  by (induction plan ws rule: applied.induct) auto

lemma set_issued: "set (issued plan ws) \<subseteq> set ws"
  by (induction plan ws rule: issued.induct) auto

section \<open>What a submission writes\<close>

lemma run_writes_Nil: "run_writes now plan [] db = (None, plan, db)"
  by (simp add: run_writes_def)

lemma run_writes_Cons:
  "run_writes now plan (w # ws) db =
     (case store_write now w plan db of
        (Some error, plan', db') \<Rightarrow> (Some error, plan', db')
      | (None, plan', db') \<Rightarrow> run_writes now plan' ws db')"
proof (cases plan)
  case Nil
  have "applied [] ws = ws" by (cases ws) simp_all
  moreover have "issued [] ws = ws" by (cases ws) simp_all
  ultimately show ?thesis using Nil by (simp add: run_writes_def store_write_Nil)
next
  case (Cons fails plan')
  then show ?thesis by (simp add: run_writes_def store_write_Cons)
qed

lemma upsertCategories_run:
  "upsertCategories now teamId judgeId scores cats plan db =
     run_writes now plan (categoryWrites now teamId judgeId scores cats) db"
proof (induction cats arbitrary: plan db)
  case Nil
  show ?case by (simp add: categoryWrites_def run_writes_Nil)
next
  case (Cons category rest)
  show ?case
  proof (cases "scores (cat_id category)")
    case None
    then have "categoryWrites now teamId judgeId scores (category # rest) =
        categoryWrites now teamId judgeId scores rest"
      by (simp add: categoryWrites_def)
    with None Cons.IH show ?thesis by simp
  next
    case (Some score)
    then have ws: "categoryWrites now teamId judgeId scores (category # rest) =
        UpsertScore teamId judgeId (cat_id category) score now #
        categoryWrites now teamId judgeId scores rest"
      by (simp add: categoryWrites_def)
    show ?thesis
      by (simp add: ws run_writes_Cons Some Cons.IH split: prod.splits option.splits)
  qed
qed

lemma writeComment_run:
  "writeComment now teamId judgeId comment existingComment plan db =
     run_writes now plan (commentWrites now teamId judgeId comment existingComment) db"
  by (cases existingComment)
     (simp_all add: writeComment_def commentWrites_def run_writes_Nil run_writes_Cons split: prod.splits option.splits)

lemma run_writes_append:
  "run_writes now plan (ws @ ws') db =
     (case run_writes now plan ws db of
        (Some error, plan', db') \<Rightarrow> (Some error, plan', db')
      | (None, plan', db') \<Rightarrow> run_writes now plan' ws' db')"
proof (induction ws arbitrary: plan db)
  case Nil
  show ?case by (simp add: run_writes_Nil)
next
  case (Cons w ws)
  show ?case
    by (simp add: run_writes_Cons Cons.IH split: prod.splits option.splits)
qed

text \<open>
  The run of \<^verbatim>\<open>saveScores\<close> in one equation: the planned writes are made in order up to
  the first one that fails, the ones before it stay applied, and the two reads follow only
  when none failed.
\<close>

lemma saveScores_run:
  assumes "v_selectedTeam v = Some selectedTeam" and "v_user v = Some user"
  shows "saveScores now plan (v, db) =
     (let ws = plannedWrites now v;
          db' = (apply_writes now (applied plan ws) db)\<lparr>received := received db @ issued plan ws\<rparr>
      in if applied plan ws = ws then (Saved, db') else (Failed Upstream, db'))"
proof -
  let ?cw = "categoryWrites now (team_id selectedTeam) (au_id user) (v_scores v) (v_categories v)"
  let ?mw = "commentWrites now (team_id selectedTeam) (au_id user) (v_comment v) (v_existingComment v)"
  have ws: "plannedWrites now v = ?cw @ ?mw"
    using assms by (simp add: plannedWrites_def)
  have "saveScores now plan (v, db) =
      (case run_writes now plan (?cw @ ?mw) db of
         (Some error, plan', db') \<Rightarrow> (Failed error, db')
       | (None, plan', db') \<Rightarrow> (Saved, db'))"
    using assms
    by (simp add: saveScores_def upsertCategories_run writeComment_run run_writes_append
        split: prod.splits option.splits)
  then show ?thesis
    by (simp add: ws run_writes_def Let_def)
qed

lemma saveScores_NotRun:
  assumes "v_selectedTeam v = None \<or> v_user v = None"
  shows "saveScores now plan (v, db) = (NotRun, db)"
  using assms by (auto simp: saveScores_def split: option.splits)

lemma issued_cases:
  "(applied plan ws = ws \<and> issued plan ws = ws) \<or>
   (\<exists>w rest. ws = applied plan ws @ w # rest \<and> issued plan ws = applied plan ws @ [w])"
  by (induction plan ws rule: applied.induct) auto

lemmas view_defs = scenario_view_def judgeA_def innovation_def design_def teamX_def
  empty_store_def

lemma trim_good: "trim (utf16 ''good '') = utf16 ''good''"
  by (simp add: trim_def is_space_def utf16_def)

lemma utf16_good [simp]: "utf16 ''good'' \<noteq> []"
  by (simp add: utf16_def)

lemma scenario_plannedWrites:
  "plannedWrites now scenario_view =
     [UpsertScore 1 7 11 8 now, UpsertScore 1 7 12 7 now, InsertComment 1 7 (utf16 ''good'')]"
  by (simp add: plannedWrites_def categoryWrites_def commentWrites_def trim_good view_defs)

text \<open>
  C2, as stated, fails: when the first upsert fails, the second upsert and the comment
  write are not made at all, although the plan lets them succeed.
\<close>

theorem saveScores_remaining_writes_counterexample:
  "plannedWrites 5 scenario_view =
     [UpsertScore 1 7 11 8 5, UpsertScore 1 7 12 7 5, InsertComment 1 7 (utf16 ''good'')] \<and>
   outcome (saveScores 5 [True, False, False] (scenario_view, empty_store)) =
     Failed Upstream \<and>
   received (store_after (saveScores 5 [True, False, False]
     (scenario_view, empty_store))) = [UpsertScore 1 7 11 8 5] \<and>
   scores_tbl (store_after (saveScores 5 [True, False, False]
     (scenario_view, empty_store))) = [] \<and>
   comments_tbl (store_after (saveScores 5 [True, False, False]
     (scenario_view, empty_store))) = []"
proof -
  have "saveScores 5 [True, False, False] (scenario_view, empty_store) =
      (Failed Upstream, empty_store\<lparr>received := [UpsertScore 1 7 11 8 5]\<rparr>)"
    by (simp add: saveScores_def store_write_def view_defs)
  then show ?thesis
    by (simp add: scenario_plannedWrites outcome_def store_after_def empty_store_def)
qed

text \<open>
  C2, amended. The writes of a submission (one upsert per category with a score, in the
  order of the list, then the comment write) are made one after the other up to the first
  one that fails: that failure is reported, no later write is made, and the writes made
  before it stay applied. Without a failure all of them are made and applied.
\<close>

theorem saveScores_stops_at_first_failure:
  assumes "v_selectedTeam v = Some selectedTeam" and "v_user v = Some user"
    and "result = saveScores now plan (v, db)" and "ws = plannedWrites now v"
  shows "received (store_after result) = received db @ issued plan ws \<and>
         scores_tbl (store_after result) = scores_tbl (apply_writes now (applied plan ws) db) \<and>
         comments_tbl (store_after result) = comments_tbl (apply_writes now (applied plan ws) db) \<and>
         ((outcome result = Saved \<and> applied plan ws = ws \<and> issued plan ws = ws) \<or>
          (outcome result = Failed Upstream \<and>
           (\<exists>w rest. ws = applied plan ws @ w # rest \<and> issued plan ws = applied plan ws @ [w])))"
proof -
  note run = saveScores_run [OF assms(1,2), of now plan db, folded assms(3,4)]
  show ?thesis
  proof (cases "applied plan ws = ws")
    case True
    with run show ?thesis
      by (simp add: Let_def store_after_def outcome_def issued_all)
  next
    case False
    with issued_cases [of plan ws]
    have "\<exists>w rest. ws = applied plan ws @ w # rest \<and> issued plan ws = applied plan ws @ [w]"
      by simp
    with run False show ?thesis
      by (simp add: Let_def store_after_def outcome_def)
  qed
qed

theorem saveScores_stops_at_first_failure_witness:
  "v_selectedTeam scenario_view = Some teamX \<and> v_user scenario_view = Some judgeA \<and>
   received (store_after (saveScores 5 [False, True] (scenario_view, empty_store))) =
     [UpsertScore 1 7 11 8 5, UpsertScore 1 7 12 7 5] \<and>
   map sc_score (scores_tbl (store_after (saveScores 5 [False, True]
     (scenario_view, empty_store)))) = [8] \<and>
   outcome (saveScores 5 [False, True] (scenario_view, empty_store)) =
     Failed Upstream"
proof -
  have h1: "v_selectedTeam scenario_view = Some teamX" by (simp add: scenario_view_def)
  have h2: "v_user scenario_view = Some judgeA" by (simp add: scenario_view_def)
  have ws: "plannedWrites 5 scenario_view =
      [UpsertScore 1 7 11 8 5, UpsertScore 1 7 12 7 5, InsertComment 1 7 (utf16 ''good'')]"
    by (rule scenario_plannedWrites)
  from saveScores_stops_at_first_failure [OF h1 h2 refl ws [symmetric], of "[False, True]"
      empty_store] h1 h2
  show ?thesis by (simp add: empty_store_def score_key_def)
qed

section \<open>Frame of a submission\<close>

lemma filter_map_other:
  assumes "\<And>r. key (upd r) = key r" and "k \<noteq> k0"
  shows "filter (\<lambda>r. key r = k) (map (\<lambda>r. if key r = k0 then upd r else r) rows) =
         filter (\<lambda>r. key r = k) rows"
  using assms by (induction rows) auto

lemma rows_of_received [simp]: "rows_of k (db\<lparr>received := rs\<rparr>) = rows_of k db"
  by (simp add: rows_of_def)

lemma rows_of_apply_write_other:
  assumes "write_key w \<noteq> Some k"
  shows "rows_of k (apply_write now w db) = rows_of k db"
proof (cases w)
  case (UpsertScore t j c s upd)
  with assms have ne: "k \<noteq> (t, j, c)" by auto
  have key: "score_key (r\<lparr>sc_score := s, sc_updated_at := upd\<rparr>) = score_key r" for r
    by (simp add: score_key_def)
  show ?thesis
  proof (cases "list_ex (\<lambda>r. score_key r = (t, j, c)) (scores_tbl db)")
    case True
    with UpsertScore show ?thesis
      using filter_map_other [of score_key "\<lambda>r. r\<lparr>sc_score := s, sc_updated_at := upd\<rparr>" k "(t, j, c)"
          "scores_tbl db", OF key ne]
      by (simp add: rows_of_def)
  next
    case False
    with UpsertScore ne show ?thesis
      by (auto simp: rows_of_def score_key_def)
  qed
next
  case (UpdateComment i body upd)
  then show ?thesis by (simp add: rows_of_def)
next
  case (InsertComment t j body)
  then show ?thesis by (simp add: rows_of_def)
qed

lemma rows_of_apply_writes_other:
  assumes "\<forall>w\<in>set ws. write_key w \<noteq> Some k"
  shows "rows_of k (apply_writes now ws db) = rows_of k db"
  using assms by (induction ws arbitrary: db) (simp_all add: rows_of_apply_write_other)

lemma categoryWrites_member:
  "w \<in> set (categoryWrites now teamId judgeId scores cats) \<longleftrightarrow>
     (\<exists>category\<in>set cats. \<exists>score. scores (cat_id category) = Some score \<and>
        w = UpsertScore teamId judgeId (cat_id category) score now)"
  by (induction cats) (auto simp: categoryWrites_def split: option.splits)

lemma commentWrites_key: "w \<in> set (commentWrites now teamId judgeId text existing) \<Longrightarrow> write_key w = None"
  by (auto simp: commentWrites_def split: if_splits option.splits)

lemma plannedWrites_None:
  "\<not> (v_selectedTeam v \<noteq> None \<and> v_user v \<noteq> None) \<Longrightarrow> plannedWrites now v = []"
  by (cases "v_selectedTeam v"; cases "v_user v") (simp_all add: plannedWrites_def)

lemma plannedWrites_upsert:
  assumes "UpsertScore t j c s upd \<in> set (plannedWrites now v)"
  shows "provided v (t, j, c) \<and> v_scores v c = Some s \<and> upd = now"
proof -
  have "v_selectedTeam v \<noteq> None \<and> v_user v \<noteq> None"
  proof (rule ccontr)
    assume "\<not> (v_selectedTeam v \<noteq> None \<and> v_user v \<noteq> None)"
    then have "plannedWrites now v = []" by (rule plannedWrites_None)
    with assms show False by simp
  qed
  then obtain selectedTeam user where su: "v_selectedTeam v = Some selectedTeam"
    "v_user v = Some user"
    by auto
  with assms have "UpsertScore t j c s upd \<in>
      set (categoryWrites now (team_id selectedTeam) (au_id user) (v_scores v) (v_categories v))"
    by (auto simp: plannedWrites_def dest: commentWrites_key)
  then obtain category where "category \<in> set (v_categories v)"
    "v_scores v (cat_id category) = Some s" "t = team_id selectedTeam" "j = au_id user"
    "c = cat_id category" "upd = now"
    by (auto simp: categoryWrites_member)
  with su show ?thesis
    by (auto simp: provided_def list_ex_iff)
qed

lemma plannedWrites_key:
  assumes "w \<in> set (plannedWrites now v)" and "write_key w = Some k"
  shows "provided v k"
proof (cases w)
  case (UpsertScore t j c s upd)
  with assms plannedWrites_upsert [of t j c s upd now v] show ?thesis by simp
next
  case (UpdateComment i body upd)
  with assms show ?thesis by simp
next
  case (InsertComment t j body)
  with assms show ?thesis by simp
qed

lemma store_after_saveScores:
  "\<exists>ws ws'. set ws \<subseteq> set (plannedWrites now v) \<and> set ws' \<subseteq> set (plannedWrites now v) \<and>
     store_after (saveScores now plan (v, db)) =
       (apply_writes now ws db)\<lparr>received := received db @ ws'\<rparr>"
proof (cases "v_selectedTeam v = None \<or> v_user v = None")
  case True
  then have "store_after (saveScores now plan (v, db)) =
      (apply_writes now [] db)\<lparr>received := received db @ []\<rparr>"
    by (simp add: saveScores_NotRun store_after_def)
  then show ?thesis by (metis empty_set empty_subsetI)
next
  case False
  then obtain selectedTeam user where su: "v_selectedTeam v = Some selectedTeam"
    "v_user v = Some user" by auto
  let ?ws = "plannedWrites now v"
  have "store_after (saveScores now plan (v, db)) =
      (apply_writes now (applied plan ?ws) db)\<lparr>received := received db @ issued plan ?ws\<rparr>"
    by (simp add: saveScores_run [OF su] Let_def store_after_def)
  with set_applied [of plan ?ws] set_issued [of plan ?ws] show ?thesis by blast
qed

lemma saveScores_rows_other:
  assumes "\<not> provided v k"
  shows "rows_of k (store_after (saveScores now plan (v, db))) = rows_of k db"
proof -
  from store_after_saveScores [of now v plan db] obtain ws ws' where
    ws: "set ws \<subseteq> set (plannedWrites now v)"
    and st: "store_after (saveScores now plan (v, db)) =
       (apply_writes now ws db)\<lparr>received := received db @ ws'\<rparr>"
    by blast
  from assms ws have "\<forall>w\<in>set ws. write_key w \<noteq> Some k"
    using plannedWrites_key [of _ now v k] by blast
  then show ?thesis by (simp add: st rows_of_apply_writes_other)
qed

lemma saveScores_sends_provided:
  assumes "UpsertScore t j c s upd \<in> set (received (store_after (saveScores now plan (v, db))))"
  shows "UpsertScore t j c s upd \<in> set (received db) \<or>
         (provided v (t, j, c) \<and> v_scores v c = Some s)"
proof -
  from store_after_saveScores [of now v plan db] obtain ws ws' where
    ws: "set ws' \<subseteq> set (plannedWrites now v)"
    and st: "store_after (saveScores now plan (v, db)) =
       (apply_writes now ws db)\<lparr>received := received db @ ws'\<rparr>"
    by blast
  from assms have "UpsertScore t j c s upd \<in> set (received db) \<or> UpsertScore t j c s upd \<in> set ws'"
    by (simp add: st)
  with ws plannedWrites_upsert [of t j c s upd now v] show ?thesis by blast
qed

text \<open>
  C10. A submission leaves the score rows of every triple it does not provide a score for
  (another team, another judge, a category without a value or outside the list) exactly as
  they were, and every upsert it sends is for a triple it provides a score for.
\<close>

theorem saveScores_frame:
  "(\<not> provided v k \<longrightarrow>
      rows_of k (store_after (saveScores now plan (v, db))) = rows_of k db) \<and>
   (\<forall>t j c s upd.
      UpsertScore t j c s upd \<in> set (received (store_after (saveScores now plan (v, db)))) \<longrightarrow>
      UpsertScore t j c s upd \<in> set (received db) \<or>
      (provided v (t, j, c) \<and> v_scores v c = Some s))"
  using saveScores_rows_other [of v k now plan db]
    saveScores_sends_provided [of _ _ _ _ _ now plan v db]
  by blast

theorem saveScores_frame_witness:
  "\<not> provided scenario_view (2, 7, 11) \<and>
   rows_of (2, 7, 11) (store_after (saveScores 5 [] (scenario_view, store_Y))) = [rowY] \<and>
   length (scores_tbl (store_after (saveScores 5 [] (scenario_view, store_Y)))) = 3"
proof -
  have np: "\<not> provided scenario_view (2, 7, 11)"
    by (simp add: provided_def view_defs)
  have before: "rows_of (2, 7, 11) store_Y = [rowY]"
    by (simp add: rows_of_def store_Y_def rowY_def score_key_def)
  have len: "length (scores_tbl (store_after (saveScores 5 [] (scenario_view, store_Y)))) = 3"
    by (simp add: saveScores_def store_write_def writeComment_def trim_good view_defs store_Y_def
        rowY_def score_key_def store_after_def)
  from saveScores_frame [of scenario_view "(2, 7, 11)" 5 "[]" store_Y] np
  have "rows_of (2, 7, 11) (store_after (saveScores 5 [] (scenario_view, store_Y))) =
      rows_of (2, 7, 11) store_Y" by blast
  with np before len show ?thesis by simp
qed

section \<open>The score a submission leaves in the store\<close>

lemma rows_of_upsert_present:
  assumes "list_ex (\<lambda>r. score_key r = k) rows"
  shows "filter (\<lambda>r. score_key r = k)
           (map (\<lambda>r. if score_key r = k then r\<lparr>sc_score := s, sc_updated_at := upd\<rparr> else r) rows) =
         map (\<lambda>r. r\<lparr>sc_score := s, sc_updated_at := upd\<rparr>) (filter (\<lambda>r. score_key r = k) rows)"
  by (induction rows) (auto simp: score_key_def)

lemma holds_score_upsert: "holds_score (t, j, c) s (apply_write now (UpsertScore t j c s upd) db)"
proof (cases "list_ex (\<lambda>r. score_key r = (t, j, c)) (scores_tbl db)")
  case True
  then have "filter (\<lambda>r. score_key r = (t, j, c)) (scores_tbl db) \<noteq> []"
    by (auto simp: list_ex_iff filter_empty_conv)
  with True show ?thesis
    by (simp add: holds_score_def rows_of_def rows_of_upsert_present list_all_iff)
next
  case False
  then have "filter (\<lambda>r. score_key r = (t, j, c)) (scores_tbl db) = []"
    by (auto simp: list_ex_iff filter_empty_conv)
  with False show ?thesis
    by (simp add: holds_score_def rows_of_def score_key_def)
qed

lemma holds_score_other:
  "write_key w \<noteq> Some k \<Longrightarrow> holds_score k s (apply_write now w db) = holds_score k s db"
  by (simp add: holds_score_def rows_of_apply_write_other)

lemma holds_score_received [simp]: "holds_score k s (db\<lparr>received := rs\<rparr>) = holds_score k s db"
  by (simp add: holds_score_def)

lemma holds_score_apply_writes:
  assumes "\<forall>t j c s' upd. UpsertScore t j c s' upd \<in> set ws \<longrightarrow> (t, j, c) = k \<longrightarrow> s' = s"
    and "holds_score k s db \<or> (\<exists>w\<in>set ws. write_key w = Some k)"
  shows "holds_score k s (apply_writes now ws db)"
  using assms
proof (induction ws arbitrary: db)
  case Nil
  then show ?case by simp
next
  case (Cons w ws)
  from Cons.prems(1)
  have rest: "\<forall>t j c s' upd. UpsertScore t j c s' upd \<in> set ws \<longrightarrow> (t, j, c) = k \<longrightarrow> s' = s"
    by simp
  show ?case
  proof (cases "write_key w = Some k")
    case True
    then obtain t j c s' upd where w: "w = UpsertScore t j c s' upd" "k = (t, j, c)"
      by (cases w) auto
    with Cons.prems(1) have s': "s' = s" by simp
    have "holds_score (t, j, c) s (apply_write now (UpsertScore t j c s upd) db)"
      by (rule holds_score_upsert)
    with w s' have "holds_score k s (apply_write now w db)"
      by (simp only:)
    with Cons.IH [OF rest] show ?thesis by simp
  next
    case False
    with Cons.prems(2) have "holds_score k s (apply_write now w db) \<or>
        (\<exists>w\<in>set ws. write_key w = Some k)"
      by (auto simp: holds_score_other)
    with Cons.IH [OF rest] show ?thesis by simp
  qed
qed



lemma holds_stamp_received [simp]: "holds_stamp k upd (db\<lparr>received := rs\<rparr>) = holds_stamp k upd db"
  by (simp add: holds_stamp_def)


lemma plannedWrites_provided:
  assumes "provided v (t, j, c)" and "v_scores v c = Some s"
  shows "UpsertScore t j c s now \<in> set (plannedWrites now v)"
proof -
  have "v_selectedTeam v \<noteq> None \<and> v_user v \<noteq> None"
    using assms(1) by (cases "v_selectedTeam v"; cases "v_user v") (simp_all add: provided_def)
  then obtain selectedTeam user where su: "v_selectedTeam v = Some selectedTeam"
    "v_user v = Some user" by auto
  with assms(1) obtain category where "category \<in> set (v_categories v)"
    "t = team_id selectedTeam" "j = au_id user" "c = cat_id category"
    by (auto simp: provided_def list_ex_iff)
  with assms(2) have "UpsertScore t j c s now \<in>
      set (categoryWrites now (team_id selectedTeam) (au_id user) (v_scores v) (v_categories v))"
    by (auto simp: categoryWrites_member)
  with su show ?thesis by (simp add: plannedWrites_def)
qed

text \<open>After a submission that succeeded, the store holds the submitted score of every
  triple the submission provides a score for.\<close>

lemma saved_store_after:
  assumes "outcome (saveScores now plan (v, db)) = Saved"
  shows "store_after (saveScores now plan (v, db)) =
     (apply_writes now (plannedWrites now v) db)\<lparr>received :=
        received db @ issued plan (plannedWrites now v)\<rparr>"
proof (cases "v_selectedTeam v = None \<or> v_user v = None")
  case True
  with assms show ?thesis by (simp add: saveScores_NotRun outcome_def)
next
  case False
  then obtain selectedTeam user where su: "v_selectedTeam v = Some selectedTeam"
    "v_user v = Some user" by auto
  let ?ws = "plannedWrites now v"
  note run = saveScores_run [OF su, of now plan db]
  have all: "applied plan ?ws = ?ws"
  proof (rule ccontr)
    assume "applied plan ?ws \<noteq> ?ws"
    with run have "outcome (saveScores now plan (v, db)) = Failed Upstream"
      by (simp add: Let_def outcome_def)
    with assms show False by simp
  qed
  with run show ?thesis by (simp add: Let_def store_after_def)
qed

lemma saved_holds_score:
  assumes "outcome (saveScores now plan (v, db)) = Saved"
    and "provided v (t, j, c)" and "v_scores v c = Some s"
  shows "holds_score (t, j, c) s (store_after (saveScores now plan (v, db)))"
proof -
  let ?ws = "plannedWrites now v"
  have "\<forall>t' j' c' s' upd. UpsertScore t' j' c' s' upd \<in> set ?ws \<longrightarrow> (t', j', c') = (t, j, c) \<longrightarrow> s' = s"
    using plannedWrites_upsert [of _ _ _ _ _ now v] assms(3) by fastforce
  moreover have "\<exists>w\<in>set ?ws. write_key w = Some (t, j, c)"
    using plannedWrites_provided [OF assms(2,3), of now] by force
  ultimately have "holds_score (t, j, c) s (apply_writes now ?ws db)"
    by (simp add: holds_score_apply_writes)
  then show ?thesis by (simp add: saved_store_after [OF assms(1)])
qed


section \<open>Range of an entered score\<close>

lemma clampedValue_range:
  "0 \<le> max_score category \<Longrightarrow>
   0 \<le> clampedValue category parsed \<and> clampedValue category parsed \<le> max_score category"
  by (simp add: clampedValue_def Let_def min_def max_def split: option.splits)

lemma provided_onChangeScore:
  assumes "v_selectedTeam v = Some selectedTeam" and "v_user v = Some user"
    and "category \<in> set (v_categories v)"
  shows "provided (onChangeScore category parsed v)
           (team_id selectedTeam, au_id user, cat_id category)"
  using assms by (auto simp: provided_def onChangeScore_def list_ex_iff)

text \<open>
  C3, as stated, fails for a category whose \<open>max_score\<close> is negative: the handler clamps
  the entered 5 to \<open>min (max 0 5) (- 3) = - 3\<close>, the submission succeeds, and the stored value
  \<open>- 3\<close> is below 0, outside \<open>[0, max_score]\<close>.
\<close>

theorem entered_score_negative_max_counterexample:
  "penalty \<in> set (v_categories penalty_view) \<and> max_score penalty = - 3 \<and>
   outcome (saveScores 5 [] (onChangeScore penalty (Some 5) penalty_view, empty_store)) = Saved \<and>
   map sc_score (rows_of (1, 7, 13) (store_after (saveScores 5 []
     (onChangeScore penalty (Some 5) penalty_view, empty_store)))) = [- 3] \<and>
   \<not> list_all (\<lambda>r. 0 \<le> sc_score r \<and> sc_score r \<le> max_score penalty)
     (rows_of (1, 7, 13) (store_after (saveScores 5 []
       (onChangeScore penalty (Some 5) penalty_view, empty_store))))"
  by (simp add: saveScores_def store_write_def writeComment_def trim_def penalty_view_def
      penalty_def judgeA_def teamX_def empty_store_def onChangeScore_def clampedValue_def
      score_key_def rows_of_def outcome_def store_after_def)

text \<open>
  C3, amended. A score entered through the input's handler for a category whose
  \<open>max_score\<close> is not negative, and then submitted, is stored within \<open>[0, max_score]\<close> of
  that category: after a submission that succeeded the triple has a row and each of its
  rows carries a value in the range, and whether or not the submission succeeds, every
  upsert it sends for the triple carries a value in the range.
\<close>

theorem entered_score_stored_in_range:
  assumes "v_selectedTeam v = Some selectedTeam" and "v_user v = Some user"
    and "category \<in> set (v_categories v)" and "0 \<le> max_score category"
    and "result = saveScores now plan (onChangeScore category parsed v, db)"
    and "k = (team_id selectedTeam, au_id user, cat_id category)"
  shows "(outcome result = Saved \<longrightarrow>
            rows_of k (store_after result) \<noteq> [] \<and>
            (\<forall>r\<in>set (rows_of k (store_after result)).
               0 \<le> sc_score r \<and> sc_score r \<le> max_score category)) \<and>
         (\<forall>s upd.
            UpsertScore (team_id selectedTeam) (au_id user) (cat_id category) s upd
              \<in> set (received (store_after result)) \<longrightarrow>
            UpsertScore (team_id selectedTeam) (au_id user) (cat_id category) s upd
              \<in> set (received db) \<or>
            (0 \<le> s \<and> s \<le> max_score category))"
proof (intro conjI impI allI)
  let ?v = "onChangeScore category parsed v"
  let ?s = "clampedValue category parsed"
  have prov: "provided ?v k"
    unfolding assms(6) using assms(1-3) by (rule provided_onChangeScore)
  have val: "v_scores ?v (cat_id category) = Some ?s"
    by (simp add: onChangeScore_def)
  note range = clampedValue_range [OF assms(4), of parsed]
  {
    assume "outcome result = Saved"
    then have "holds_score k ?s (store_after result)"
      unfolding assms(5,6) using prov [unfolded assms(6)] val by (rule saved_holds_score)
    then have rows: "rows_of k (store_after result) \<noteq> []"
      and all: "\<forall>r\<in>set (rows_of k (store_after result)). sc_score r = ?s"
      by (simp_all add: holds_score_def list_all_iff)
    from rows show "rows_of k (store_after result) \<noteq> []" .
    from all range show "\<forall>r\<in>set (rows_of k (store_after result)).
        0 \<le> sc_score r \<and> sc_score r \<le> max_score category" by simp
  }
  fix s upd
  assume "UpsertScore (team_id selectedTeam) (au_id user) (cat_id category) s upd
      \<in> set (received (store_after result))"
  from saveScores_sends_provided [OF this [unfolded assms(5)]] val range
  show "UpsertScore (team_id selectedTeam) (au_id user) (cat_id category) s upd
      \<in> set (received db) \<or> (0 \<le> s \<and> s \<le> max_score category)"
    by auto
qed

theorem entered_score_stored_in_range_witness:
  "v_selectedTeam scenario_view = Some teamX \<and> v_user scenario_view = Some judgeA \<and>
   design \<in> set (v_categories scenario_view) \<and> 0 \<le> max_score design \<and>
   outcome (saveScores 5 []
     (onChangeScore design (Some 99) scenario_view, empty_store)) = Saved \<and>
   map sc_score (rows_of (1, 7, 12) (store_after (saveScores 5 []
     (onChangeScore design (Some 99) scenario_view, empty_store)))) = [10]"
proof -
  let ?result = "saveScores 5 []
     (onChangeScore design (Some 99) scenario_view, empty_store)"
  have h1: "v_selectedTeam scenario_view = Some teamX" by (simp add: scenario_view_def)
  have h2: "v_user scenario_view = Some judgeA" by (simp add: scenario_view_def)
  have h3: "design \<in> set (v_categories scenario_view)" by (simp add: scenario_view_def)
  have h4: "0 \<le> max_score design" by (simp add: design_def)
  have k: "(1, 7, 12) = (team_id teamX, au_id judgeA, cat_id design)"
    by (simp add: view_defs)
  have run: "outcome ?result = Saved \<and> map sc_score (rows_of (1, 7, 12) (store_after ?result)) = [10]"
    by (simp add: saveScores_def store_write_def writeComment_def trim_good view_defs
        onChangeScore_def clampedValue_def score_key_def rows_of_def outcome_def store_after_def)
  from entered_score_stored_in_range [OF h1 h2 h3 h4 refl k, of 5 "[]" "Some 99"
      empty_store] h1 h2 h3 h4 run
  show ?thesis by simp
qed

section \<open>Submitting twice\<close>


















section \<open>Comment handling\<close>

lemma comments_tbl_received [simp]: "comments_of t j (db\<lparr>received := rs\<rparr>) = comments_of t j db"
  by (simp add: comments_of_def)
























section \<open>Sign-in\<close>

lemma signIn_failure_keeps_state:
  "fst (signIn role credentials backend st) \<noteq> None \<Longrightarrow> snd (signIn role credentials backend st) = st"
  by (cases role) (auto split: if_splits option.splits sum.splits)

lemma signIn_judge_lookup:
  assumes "cred_name credentials = Some n" and "n \<noteq> []"
  shows "signIn RoleJudge credentials backend st =
     (case select_by_name (ab_lookup_fails backend) judge_name n (ab_judges backend) of
        Inl error \<Rightarrow> (Some error, st)
      | Inr None \<Rightarrow> (Some (Message ''Judge not found''), st)
      | Inr (Some judge) \<Rightarrow>
          (None, establish \<lparr>au_role = RoleJudge, au_id = judge_id judge,
                             au_name = judge_name judge, au_email = None\<rparr> st))"
  using assms by simp

lemma signIn_team_lookup:
  assumes "cred_name credentials = Some n" and "n \<noteq> []"
  shows "signIn RoleTeam credentials backend st =
     (case select_by_name (ab_lookup_fails backend) team_name n (ab_teams backend) of
        Inl error \<Rightarrow> (Some error, st)
      | Inr None \<Rightarrow> (Some (Message ''Team not found''), st)
      | Inr (Some team) \<Rightarrow>
          (None, establish \<lparr>au_role = RoleTeam, au_id = team_id team,
                             au_name = team_name team, au_email = None\<rparr> st))"
  using assms by simp

lemma maybeSingle_many: "2 \<le> length rows \<Longrightarrow> maybeSingle rows = Inl Upstream"
  by (cases rows rule: maybeSingle.cases) simp_all

text \<open>
  C9, as stated, fails: a name that matches two rows makes the lookup itself report an
  error, and that error is what \<^verbatim>\<open>signIn\<close> throws, not ``Judge not found''; and the empty
  name, which matches no row, is refused as a missing name before any lookup.
\<close>

theorem signIn_not_found_counterexample:
  "length (filter (\<lambda>r. judge_name r = ''Bob'') (ab_judges scenario_backend)) = 2 \<and>
   fst (signIn RoleJudge (by_name ''Bob'') scenario_backend signed_out) = Some Upstream \<and>
   filter (\<lambda>r. judge_name r = []) (ab_judges scenario_backend) = [] \<and>
   fst (signIn RoleJudge (by_name []) scenario_backend signed_out) =
     Some (Message ''Name required for judge login'')"
  by (simp add: scenario_backend_def by_name_def select_by_name_def)

text \<open>
  C9, amended. Judge and team sign-in look the name up by equality. A missing or empty
  name is refused with ``Name required \<dots>'' before any lookup. For a name that is not
  empty: when the lookup reports an error, which it does when the store fails and when
  several rows match, that error is thrown; when it returns no row, the sign-in fails with
  ``Judge not found'' or ``Team not found''; when exactly one row matches, that row becomes
  the identity. Whenever a sign-in of any role fails, the current user and its stored copy
  are as they were.
\<close>

theorem signIn_by_name:
  assumes "cred_name credentials = Some n" and "n \<noteq> []"
    and "js = filter (\<lambda>r. judge_name r = n) (ab_judges backend)"
    and "ts = filter (\<lambda>r. team_name r = n) (ab_teams backend)"
  shows "(fst (signIn role anyCredentials backend st) \<noteq> None \<longrightarrow>
            snd (signIn role anyCredentials backend st) = st) \<and>
         (missing (cred_name anyCredentials) \<longrightarrow>
            signIn RoleJudge anyCredentials backend st =
              (Some (Message ''Name required for judge login''), st) \<and>
            signIn RoleTeam anyCredentials backend st =
              (Some (Message ''Name required for team login''), st)) \<and>
         (ab_lookup_fails backend \<or> 2 \<le> length js \<longrightarrow>
            signIn RoleJudge credentials backend st = (Some Upstream, st)) \<and>
         (ab_lookup_fails backend \<or> 2 \<le> length ts \<longrightarrow>
            signIn RoleTeam credentials backend st = (Some Upstream, st)) \<and>
         (\<not> ab_lookup_fails backend \<and> js = [] \<longrightarrow>
            signIn RoleJudge credentials backend st = (Some (Message ''Judge not found''), st)) \<and>
         (\<not> ab_lookup_fails backend \<and> ts = [] \<longrightarrow>
            signIn RoleTeam credentials backend st = (Some (Message ''Team not found''), st)) \<and>
         (\<forall>r. \<not> ab_lookup_fails backend \<and> js = [r] \<longrightarrow>
            signIn RoleJudge credentials backend st =
              (None, establish \<lparr>au_role = RoleJudge, au_id = judge_id r, au_name = judge_name r,
                                 au_email = None\<rparr> st)) \<and>
         (\<forall>r. \<not> ab_lookup_fails backend \<and> ts = [r] \<longrightarrow>
            signIn RoleTeam credentials backend st =
              (None, establish \<lparr>au_role = RoleTeam, au_id = team_id r, au_name = team_name r,
                                 au_email = None\<rparr> st))"
proof -
  note j = signIn_judge_lookup [OF assms(1,2), of backend st]
  note t = signIn_team_lookup [OF assms(1,2), of backend st]
  have keep: "fst (signIn role anyCredentials backend st) \<noteq> None \<longrightarrow>
      snd (signIn role anyCredentials backend st) = st"
    using signIn_failure_keeps_state by blast
  have name: "missing (cred_name anyCredentials) \<longrightarrow>
      signIn RoleJudge anyCredentials backend st =
        (Some (Message ''Name required for judge login''), st) \<and>
      signIn RoleTeam anyCredentials backend st =
        (Some (Message ''Name required for team login''), st)"
    by (auto simp: missing_def split: option.splits)
  have j_err: "ab_lookup_fails backend \<or> 2 \<le> length js \<longrightarrow>
      signIn RoleJudge credentials backend st = (Some Upstream, st)"
    unfolding j assms(3) by (auto simp: select_by_name_def maybeSingle_many)
  have t_err: "ab_lookup_fails backend \<or> 2 \<le> length ts \<longrightarrow>
      signIn RoleTeam credentials backend st = (Some Upstream, st)"
    unfolding t assms(4) by (auto simp: select_by_name_def maybeSingle_many)
  have j_none: "\<not> ab_lookup_fails backend \<and> js = [] \<longrightarrow>
      signIn RoleJudge credentials backend st = (Some (Message ''Judge not found''), st)"
    unfolding j assms(3) by (auto simp: select_by_name_def)
  have t_none: "\<not> ab_lookup_fails backend \<and> ts = [] \<longrightarrow>
      signIn RoleTeam credentials backend st = (Some (Message ''Team not found''), st)"
    unfolding t assms(4) by (auto simp: select_by_name_def)
  have j_one: "\<forall>r. \<not> ab_lookup_fails backend \<and> js = [r] \<longrightarrow>
      signIn RoleJudge credentials backend st =
        (None, establish \<lparr>au_role = RoleJudge, au_id = judge_id r, au_name = judge_name r,
                           au_email = None\<rparr> st)"
    unfolding j assms(3) by (auto simp: select_by_name_def)
  have t_one: "\<forall>r. \<not> ab_lookup_fails backend \<and> ts = [r] \<longrightarrow>
      signIn RoleTeam credentials backend st =
        (None, establish \<lparr>au_role = RoleTeam, au_id = team_id r, au_name = team_name r,
                           au_email = None\<rparr> st)"
    unfolding t assms(4) by (auto simp: select_by_name_def)
  from keep name j_err t_err j_none t_none j_one t_one show ?thesis by (intro conjI)
qed

theorem signIn_by_name_witness:
  "cred_name (by_name ''Zed'') = Some ''Zed'' \<and> ''Zed'' \<noteq> [] \<and>
   filter (\<lambda>r. judge_name r = ''Zed'') (ab_judges scenario_backend) = [] \<and>
   \<not> ab_lookup_fails scenario_backend \<and>
   signIn RoleJudge (by_name ''Zed'') scenario_backend signed_out =
     (Some (Message ''Judge not found''), signed_out) \<and>
   signIn RoleTeam (by_name ''Zed'') scenario_backend signed_out =
     (Some (Message ''Team not found''), signed_out)"
proof -
  have h1: "cred_name (by_name ''Zed'') = Some ''Zed''" by (simp add: by_name_def)
  have h2: "''Zed'' \<noteq> []" by simp
  have js: "filter (\<lambda>r. judge_name r = ''Zed'') (ab_judges scenario_backend) = []"
    by (simp add: scenario_backend_def)
  have ts: "filter (\<lambda>r. team_name r = ''Zed'') (ab_teams scenario_backend) = []"
    by (simp add: scenario_backend_def teamX_def)
  have ok: "\<not> ab_lookup_fails scenario_backend" by (simp add: scenario_backend_def)
  from signIn_by_name [OF h1 h2 js [symmetric] ts [symmetric], of RoleJudge "by_name ''Zed''" signed_out]
    h1 js ok
  show ?thesis by simp
qed

end
